theory Spec2Isabelle
  imports Main "HOL-Library.Word" "HOL-Library.Sublist" "HOL-Library.List_Lexorder"
    "HOL-Library.AList"
begin

text \<open>
  A model of \<open>scripts/daily-summary.ts\<close>: the collection of the commits to report, the
  chunking of a diff and the three levels of summarization. Line numbers are those of
  that file.
\<close>

section \<open>JavaScript strings and arrays\<close>

text \<open>
  A JavaScript string is a sequence of UTF-16 code units: \<open>length\<close>, \<open>slice\<close>, \<open>trim\<close> and
  the default \<open>sort\<close> comparison all work on code units. A string is therefore a list of
  16-bit words. \<open>js\<close> embeds an ASCII literal.
\<close>

type_synonym jsstring = "16 word list"

definition js :: "string \<Rightarrow> jsstring" where
  "js s = map of_char s"

definition nl :: "16 word" where
  "nl = 0x0A"

text \<open>
  \<open>String.prototype.trim\<close> removes WhiteSpace and LineTerminator code points from both
  ends: TAB, LF, VT, FF, CR, SP, NBSP, U+1680, U+2000..U+200A, U+2028, U+2029, U+202F,
  U+205F, U+3000 and U+FEFF.
\<close>

definition is_ws :: "16 word \<Rightarrow> bool" where
  "is_ws c \<longleftrightarrow>
     c \<in> {0x09, 0x0A, 0x0B, 0x0C, 0x0D, 0x20, 0xA0, 0x1680, 0x2028, 0x2029, 0x202F,
          0x205F, 0x3000, 0xFEFF}
     \<or> (0x2000 \<le> c \<and> c \<le> 0x200A)"

definition trim :: "jsstring \<Rightarrow> jsstring" where
  "trim s = rev (dropWhile is_ws (rev (dropWhile is_ws s)))"

text \<open>\<open>s.split(c)\<close> for a one-character separator; the empty string gives \<open>[""]\<close>.\<close>

fun split_acc :: "'a \<Rightarrow> 'a list \<Rightarrow> 'a list \<Rightarrow> 'a list list" where
  "split_acc c cur [] = [cur]"
| "split_acc c cur (x # xs) =
     (if x = c then cur # split_acc c [] xs else split_acc c (cur @ [x]) xs)"

definition split_on :: "'a \<Rightarrow> 'a list \<Rightarrow> 'a list list" where
  "split_on c s = split_acc c [] s"

text \<open>\<open>xs.join(sep)\<close>.\<close>

fun join :: "'a list \<Rightarrow> 'a list list \<Rightarrow> 'a list" where
  "join sep [] = []"
| "join sep [x] = x"
| "join sep (x # y # ys) = x @ sep @ join sep (y # ys)"

text \<open>
  \<open>xs.slice(start, end)\<close> on arrays and strings alike: a negative index counts from the
  end, and both indices are clamped to \<open>[0, length]\<close>. \<open>slice_from\<close> is the one-argument
  \<open>xs.slice(start)\<close>.
\<close>

definition rel_index :: "int \<Rightarrow> int \<Rightarrow> int" where
  "rel_index len k = (if k < 0 then max (len + k) 0 else min k len)"

definition slice :: "'a list \<Rightarrow> int \<Rightarrow> int \<Rightarrow> 'a list" where
  "slice xs start fin =
     (let len = int (length xs); k = rel_index len start; e = rel_index len fin
      in take (nat (e - k)) (drop (nat k) xs))"

definition slice_from :: "'a list \<Rightarrow> int \<Rightarrow> 'a list" where
  "slice_from xs start = slice xs start (int (length xs))"

text \<open>The template \<open>${n}\<close> of a non-negative integer: its decimal digits.\<close>

fun dec :: "nat \<Rightarrow> jsstring" where
  "dec n = (if n < 10 then [of_nat (48 + n)] else dec (n div 10) @ [of_nat (48 + n mod 10)])"

declare dec.simps [simp del]

section \<open>Branch and commit collection\<close>

text \<open>
  \<open>sh(cmd)\<close> returns the trimmed standard output of a command. Every listing is
  \<open>sh(cmd).split("\n").map(s => s.trim()).filter(Boolean)\<close>. The outputs of the git
  commands are inputs of the model (the fields of \<open>env\<close> below); the commands are taken to
  complete, as each listing command ends in \<open>|| true\<close>.
\<close>

definition sh :: "jsstring \<Rightarrow> jsstring" where
  "sh out = trim out"

definition listing :: "jsstring \<Rightarrow> jsstring list" where
  "listing out = filter (\<lambda>s. s \<noteq> []) (map trim (split_on nl (sh out)))"

text \<open>
  \<open>branchToCommits.set(rb, list.slice(-PER_BRANCH_LIMIT))\<close> (lines 130 to 141). The cap
  is the integer that \<open>parseInt\<close> produced; a setting that does not parse (\<open>NaN\<close>) is
  outside the model. A JavaScript \<open>Map\<close> keeps its keys in insertion order and \<open>set\<close> on
  a present key replaces the value in place, which is \<open>AList.update\<close>.
\<close>

definition capped :: "int \<Rightarrow> 'a list \<Rightarrow> 'a list" where
  "capped cap list = slice_from list (- cap)"

fun branchToCommits ::
  "int \<Rightarrow> (jsstring \<Rightarrow> jsstring list) \<Rightarrow> jsstring list \<Rightarrow> (jsstring \<times> jsstring list) list
     \<Rightarrow> (jsstring \<times> jsstring list) list" where
  "branchToCommits cap log [] m = m"
| "branchToCommits cap log (rb # rbs) m =
     branchToCommits cap log rbs (AList.update rb (capped cap (log rb)) m)"

text \<open>
  The reverse index \<open>shaToBranches : Map<string, Set<string>>\<close> (lines 144 to 150). Only
  \<open>has\<close> and \<open>get\<close> are used on the map, so it is a partial function; a \<open>Set\<close> is the
  list of its members in insertion order.
\<close>

definition set_add :: "'a \<Rightarrow> 'a list \<Rightarrow> 'a list" where
  "set_add x s = (if x \<in> set s then s else s @ [x])"

fun index_branch ::
  "jsstring \<Rightarrow> jsstring list \<Rightarrow> (jsstring \<rightharpoonup> jsstring list) \<Rightarrow> (jsstring \<rightharpoonup> jsstring list)" where
  "index_branch rb [] idx = idx"
| "index_branch rb (sha # shas) idx =
     (let idx1 = (if idx sha = None then idx(sha \<mapsto> []) else idx)
      in index_branch rb shas
           (case idx1 sha of None \<Rightarrow> idx1 | Some bs \<Rightarrow> idx1(sha \<mapsto> set_add rb bs)))"

fun shaToBranches ::
  "(jsstring \<times> jsstring list) list \<Rightarrow> (jsstring \<rightharpoonup> jsstring list) \<Rightarrow> (jsstring \<rightharpoonup> jsstring list)" where
  "shaToBranches [] idx = idx"
| "shaToBranches ((rb, shas) # rest) idx = shaToBranches rest (index_branch rb shas idx)"

text \<open>
  \<open>allShasOrdered.filter(...)\<close> with the mutable \<open>seen\<close> set (lines 161 to 167): a hash
  is kept when it was not kept before and the reverse index has it.
\<close>

fun commitShas :: "(jsstring \<Rightarrow> bool) \<Rightarrow> jsstring set \<Rightarrow> jsstring list \<Rightarrow> jsstring list" where
  "commitShas has seen [] = []"
| "commitShas has seen (sha # rest) =
     (if sha \<in> seen then commitShas has seen rest
      else if \<not> has sha then commitShas has seen rest
      else sha # commitShas has (insert sha seen) rest)"

record CommitMeta =
  sha :: jsstring
  title :: jsstring
  author :: jsstring
  url :: jsstring
  branches :: "jsstring list"

text \<open>
  How a generation request ends. \<open>Response status data content\<close> is a completed HTTP
  exchange: \<open>content\<close> is what \<open>JSON.parse(data)?.choices?.[0]?.message?.content\<close>
  evaluates to: \<open>Throws\<close> when parsing raises or the value has no \<open>trim\<close> method,
  \<open>Absent\<close> when it is \<open>undefined\<close> or \<open>null\<close>, \<open>Text\<close> when it is a string.
  \<open>RequestError\<close> is the \<open>error\<close> event of the request. Errors are carried as the
  text \<open>String(e)\<close>.
\<close>

datatype content = Throws jsstring | Absent | Text jsstring

datatype http_outcome = RequestError jsstring | Response nat jsstring content

text \<open>
  Everything the script reads from outside: the configuration, the standard output of
  each git command, the generation service (its answer may depend on how many requests
  came before, and on the prompt), the clock and the webhook. The three prompt
  templates build a request text from their arguments; only the generation service
  reads that text, so they are taken as given functions of the same arguments.
\<close>

record env =
  PER_BRANCH_LIMIT :: int
  DIFF_CHUNK_MAX_CHARS :: int
  REPO :: jsstring
  LARK_WEBHOOK_URL :: jsstring
  git_remote_branches :: jsstring
  git_log_branch :: "jsstring \<Rightarrow> jsstring"
  git_log_all :: jsstring
  git_show_subject :: "jsstring \<Rightarrow> jsstring"
  git_show_author :: "jsstring \<Rightarrow> jsstring"
  git_diff :: "jsstring \<Rightarrow> jsstring"
  generation :: "nat \<Rightarrow> jsstring \<Rightarrow> http_outcome"
  todayLabel :: jsstring
  lark_request_ends :: "jsstring \<Rightarrow> bool"
  commitChunkPrompt :: "CommitMeta \<Rightarrow> nat \<Rightarrow> nat \<Rightarrow> jsstring \<Rightarrow> jsstring"
  commitMergePrompt :: "CommitMeta \<Rightarrow> jsstring list \<Rightarrow> jsstring"
  dailyMergePrompt :: "jsstring \<Rightarrow> (CommitMeta \<times> jsstring) list \<Rightarrow> jsstring \<Rightarrow> jsstring"

definition serverUrl :: jsstring where
  "serverUrl = js ''https://github.com''"

definition remoteBranches :: "env \<Rightarrow> jsstring list" where
  "remoteBranches e = listing (git_remote_branches e)"

definition branch_list :: "env \<Rightarrow> jsstring \<Rightarrow> jsstring list" where
  "branch_list e rb = listing (git_log_branch e rb)"

definition reverse_index :: "env \<Rightarrow> (jsstring \<rightharpoonup> jsstring list)" where
  "reverse_index e =
     shaToBranches (branchToCommits (PER_BRANCH_LIMIT e) (branch_list e) (remoteBranches e) [])
       Map.empty"

definition allShasOrdered :: "env \<Rightarrow> jsstring list" where
  "allShasOrdered e = listing (git_log_all e)"

definition reporting_set :: "env \<Rightarrow> jsstring list" where
  "reporting_set e = commitShas (\<lambda>s. reverse_index e s \<noteq> None) {} (allShasOrdered e)"

definition commitMeta :: "env \<Rightarrow> jsstring \<Rightarrow> CommitMeta" where
  "commitMeta e s =
     \<lparr> sha = s,
       title = sh (git_show_subject e s),
       author = sh (git_show_author e s),
       url = (if REPO e \<noteq> [] then serverUrl @ js ''/'' @ REPO e @ js ''/commit/'' @ s
              else serverUrl @ js ''/commit/'' @ s),
       branches = sort (case reverse_index e s of None \<Rightarrow> [] | Some bs \<Rightarrow> bs) \<rparr>"

definition commitMetas :: "env \<Rightarrow> CommitMeta list" where
  "commitMetas e = map (commitMeta e) (reporting_set e)"

section \<open>Diff extraction and chunking\<close>

text \<open>
  \<open>getDiff\<close> (lines 208 to 216): the trimmed output of
  \<open>git diff --unified=0 --minimal base sha -- .\<close> with the exclusion list, \<open>base\<close> being
  the first parent or the empty tree.
\<close>

definition getDiff :: "env \<Rightarrow> jsstring \<Rightarrow> jsstring" where
  "getDiff e s = sh (git_diff e s)"

text \<open>
  \<open>splitPatchByFile\<close> (lines 218 to 222) starts with
  \<open>patch.split(/^diff --git.*$/m)\<close>. With the \<open>m\<close> flag \<open>^\<close> matches at the start of the
  input and after a line terminator, \<open>.\<close> matches every code unit but a line terminator,
  and the greedy \<open>.*$\<close> runs to the end of the line. So a match is a whole line that
  starts with \<open>diff --git\<close>, without its terminator, and the pieces are the text between
  such lines. The scanner reads the input once: \<open>cur\<close> is the piece read so far.
\<close>

definition is_line_terminator :: "16 word \<Rightarrow> bool" where
  "is_line_terminator c \<longleftrightarrow> c \<in> {0x0A, 0x0D, 0x2028, 0x2029}"

definition marker :: jsstring where
  "marker = js ''diff --git''"

datatype scan = LineStart | MidLine | InMarker

fun regex_split :: "scan \<Rightarrow> jsstring \<Rightarrow> jsstring \<Rightarrow> jsstring list" where
  "regex_split m cur [] = [cur]"
| "regex_split InMarker cur (c # cs) =
     (if is_line_terminator c then regex_split LineStart (cur @ [c]) cs
      else regex_split InMarker cur cs)"
| "regex_split LineStart cur (c # cs) =
     (if prefix marker (c # cs) then cur # regex_split InMarker [] cs
      else regex_split (if is_line_terminator c then LineStart else MidLine) (cur @ [c]) cs)"
| "regex_split MidLine cur (c # cs) =
     regex_split (if is_line_terminator c then LineStart else MidLine) (cur @ [c]) cs"

definition splitPatchByFile :: "jsstring \<Rightarrow> jsstring list" where
  "splitPatchByFile patch =
     (if patch = [] then []
      else filter (\<lambda>p. p \<noteq> []) (map trim (regex_split LineStart [] patch)))"

text \<open>
  \<open>chunkBySize\<close> (lines 224 to 245). The inner loop
  \<open>for (let i = 0; i < p.length; i += limit)\<close> does not advance when \<open>limit \<le> 0\<close>, so it
  is a partial function: \<open>None\<close> is a loop that never ends. The limit is the integer
  that \<open>parseInt\<close> produced; a setting that does not parse (\<open>NaN\<close>) is outside the model.
\<close>

definition joiner :: jsstring where
  "joiner = [nl, nl]"

partial_function (option) force_slices ::
  "jsstring \<Rightarrow> int \<Rightarrow> int \<Rightarrow> jsstring list \<Rightarrow> jsstring list option" where
  "force_slices p limit i out =
     (if i < int (length p)
      then force_slices p limit (i + limit) (out @ [slice p i (i + limit)])
      else Some out)"

declare force_slices.simps [code]

fun chunk_loop ::
  "int \<Rightarrow> jsstring list \<Rightarrow> jsstring list \<Rightarrow> jsstring \<Rightarrow> (jsstring list \<times> jsstring) option" where
  "chunk_loop limit [] out buf = Some (out, buf)"
| "chunk_loop limit (p # ps) out buf =
     (let candidate = (if buf \<noteq> [] then buf @ joiner @ p else p)
      in if int (length candidate) > limit
         then (let out1 = (if buf \<noteq> [] then out @ [buf] else out)
               in if int (length p) > limit
                  then (case force_slices p limit 0 out1 of
                          None \<Rightarrow> None
                        | Some out2 \<Rightarrow> chunk_loop limit ps out2 [])
                  else chunk_loop limit ps out1 p)
         else chunk_loop limit ps out candidate)"

definition chunkBySize :: "jsstring list \<Rightarrow> int \<Rightarrow> jsstring list option" where
  "chunkBySize parts limit =
     (case chunk_loop limit parts [] [] of
        None \<Rightarrow> None
      | Some (out, buf) \<Rightarrow> Some (if buf \<noteq> [] then out @ [buf] else out))"

section \<open>Summarization\<close>

text \<open>
  \<open>chat\<close> (lines 256 to 314) resolves with the trimmed content (or \<open>""\<close>) on a 2xx
  status and rejects otherwise: \<open>Inr\<close> is the resolved text, \<open>Inl\<close> the rejection. The
  list of prompts sent so far is threaded through every call.
\<close>

definition chat_result :: "http_outcome \<Rightarrow> jsstring + jsstring" where
  "chat_result r =
     (case r of
        RequestError msg \<Rightarrow> Inl msg
      | Response status data c \<Rightarrow>
          if 200 \<le> status \<and> status < 300
          then (case c of Throws msg \<Rightarrow> Inl msg | Absent \<Rightarrow> Inr [] | Text t \<Rightarrow> Inr (trim t))
          else Inl (js ''Error: OpenAI HTTP '' @ dec status @ js '': '' @ data))"

definition chat :: "env \<Rightarrow> jsstring \<Rightarrow> jsstring list \<Rightarrow> (jsstring + jsstring) \<times> jsstring list" where
  "chat e prompt calls = (chat_result (generation e (length calls) prompt), calls @ [prompt])"

text \<open>
  The fixed texts of the main flow, as UTF-16 code units: the summary of a commit with
  no qualifying change (line 425), the two chunk-level placeholders around the chunk
  number (lines 438 and 440), the notice that opens the daily fallback (line 468) and
  the notification keyword (line 478).
\<close>

definition no_change_placeholder :: jsstring where
  "no_change_placeholder =
     [0xFF08, 0x65E0, 0x6709, 0x6548, 0x4E1A, 0x52A1, 0x6539, 0x52A8, 0x6216, 0x6539,
      0x52A8, 0x5DF2, 0x88AB, 0x8FC7, 0x6EE4, 0xFF0C, 0x4F8B, 0x5982, 0x0020, 0x006C,
      0x006F, 0x0063, 0x006B, 0x0066, 0x0069, 0x006C, 0x0065, 0x002F, 0x6784, 0x5EFA,
      0x4EA7, 0x7269, 0x002F, 0x4E8C, 0x8FDB, 0x5236, 0xFF0C, 0x6216, 0x7A7A, 0x63D0,
      0x4EA4, 0xFF09]"

definition empty_part_placeholder :: "nat \<Rightarrow> jsstring" where
  "empty_part_placeholder n =
     [0xFF08, 0x7247, 0x6BB5] @ dec n @ [0x6458, 0x8981, 0x4E3A, 0x7A7A, 0xFF09]"

definition failed_part_placeholder :: "nat \<Rightarrow> jsstring \<Rightarrow> jsstring" where
  "failed_part_placeholder n err =
     [0xFF08, 0x7247, 0x6BB5] @ dec n @ [0x8C03, 0x7528, 0x5931, 0x8D25, 0xFF1A] @ err
       @ [0xFF09]"

definition daily_failure_notice :: jsstring where
  "daily_failure_notice =
     [0xFF08, 0x5F53, 0x65E5, 0x6C47, 0x603B, 0x5931, 0x8D25, 0xFF0C, 0x4EE5, 0x4E0B,
      0x4E3A, 0x9010, 0x63D0, 0x4EA4, 0x539F, 0x59CB, 0x5C0F, 0x7ED3, 0x62FC, 0x63A5,
      0xFF09, 0x000A, 0x000A]"

definition notificationKeyword :: jsstring where
  "notificationKeyword =
     [0x3010, 0x6BCF, 0x65E5, 0x4EE3, 0x7801, 0x63D0, 0x4EA4, 0x6458, 0x8981, 0x3011]"

record run =
  calls :: "jsstring list"
  perCommitFinal :: "(CommitMeta \<times> jsstring) list"

text \<open>
  One chunk-level summary (lines 436 to 441): \<open>sum || placeholder\<close>, or the failure text
  in the handler. Then the loop over the chunks, the step for one commit (lines 419 to
  453) and the loop over the commits.
\<close>

definition part_summary :: "nat \<Rightarrow> jsstring + jsstring \<Rightarrow> jsstring" where
  "part_summary n r =
     (case r of
        Inr t \<Rightarrow> (if t \<noteq> [] then t else empty_part_placeholder n)
      | Inl err \<Rightarrow> failed_part_placeholder n err)"

fun summarize_chunks ::
  "env \<Rightarrow> CommitMeta \<Rightarrow> nat \<Rightarrow> nat \<Rightarrow> jsstring list \<Rightarrow> jsstring list \<Rightarrow> jsstring list
     \<Rightarrow> jsstring list \<times> jsstring list" where
  "summarize_chunks e meta n i [] partSummaries cs = (partSummaries, cs)"
| "summarize_chunks e meta n i (chunk # rest) partSummaries cs =
     (let (r, cs1) = chat e (commitChunkPrompt e meta (i + 1) n chunk) cs
      in summarize_chunks e meta n (i + 1) rest
           (partSummaries @ [part_summary (i + 1) r]) cs1)"

definition process_commit :: "env \<Rightarrow> CommitMeta \<Rightarrow> run \<Rightarrow> run option" where
  "process_commit e meta st =
     (let fullPatch = getDiff e (sha meta)
      in if fullPatch = [] \<or> trim fullPatch = []
         then Some (st\<lparr>perCommitFinal := perCommitFinal st @ [(meta, no_change_placeholder)]\<rparr>)
         else (let fileParts = splitPatchByFile fullPatch
               in case chunkBySize fileParts (DIFF_CHUNK_MAX_CHARS e) of
                    None \<Rightarrow> None
                  | Some chunks \<Rightarrow>
                      (let (partSummaries, cs1) =
                             summarize_chunks e meta (length chunks) 0 chunks [] (calls st);
                           (r, cs2) = chat e (commitMergePrompt e meta partSummaries) cs1;
                           merged = (case r of Inr m \<Rightarrow> m | Inl err \<Rightarrow> join joiner partSummaries)
                       in Some \<lparr>calls = cs2,
                                perCommitFinal = perCommitFinal st @ [(meta, merged)]\<rparr>)))"

fun run_commits :: "env \<Rightarrow> CommitMeta list \<Rightarrow> run \<Rightarrow> run option" where
  "run_commits e [] st = Some st"
| "run_commits e (meta # metas) st =
     (case process_commit e meta st of None \<Rightarrow> None | Some st1 \<Rightarrow> run_commits e metas st1)"

text \<open>The daily fallback listing (lines 467 to 474), and the delivery.\<close>

definition fallback_item :: "CommitMeta \<times> jsstring \<Rightarrow> jsstring" where
  "fallback_item it =
     js ''['' @ slice (sha (fst it)) 0 7 @ js ''] '' @ title (fst it) @ [0x0020, 0x2014, 0x0020]
       @ join (js '', '') (branches (fst it)) @ [nl] @ snd it"

definition daily_fallback :: "(CommitMeta \<times> jsstring) list \<Rightarrow> jsstring" where
  "daily_fallback items =
     daily_failure_notice @ join ([nl, nl] @ js ''---'' @ [nl, nl]) (map fallback_item items)"

datatype delivery = Printed jsstring | Posted jsstring

record outcome =
  exit_code :: nat
  calls_made :: "jsstring list"
  delivered :: "delivery list"

text \<open>
  \<open>postToLark\<close> prints the text when no webhook is configured. Otherwise it posts it;
  the \<open>error\<close> event of that request rejects, and the rejection reaches the final
  \<open>catch\<close>, which exits with status 1.
\<close>

definition postToLark :: "env \<Rightarrow> jsstring list \<Rightarrow> jsstring \<Rightarrow> outcome" where
  "postToLark e cs text =
     (if LARK_WEBHOOK_URL e = [] then \<lparr>exit_code = 0, calls_made = cs, delivered = [Printed text]\<rparr>
      else if lark_request_ends e text
           then \<lparr>exit_code = 0, calls_made = cs, delivered = [Posted text]\<rparr>
           else \<lparr>exit_code = 1, calls_made = cs, delivered = []\<rparr>)"

definition finish :: "env \<Rightarrow> run \<Rightarrow> outcome" where
  "finish e st =
     (let (r, cs1) = chat e (dailyMergePrompt e (todayLabel e) (perCommitFinal st)
                               (if REPO e \<noteq> [] then REPO e else js ''repository''))
                        (calls st);
          daily = (case r of Inr d \<Rightarrow> d | Inl err \<Rightarrow> daily_fallback (perCommitFinal st));
          finalMessage = notificationKeyword @ [nl, nl] @ daily
      in postToLark e cs1 finalMessage)"

text \<open>
  The script from the collection on. \<open>process.exit(0)\<close> on an empty reporting set comes
  before any other step. \<open>None\<close> is a run that never ends.
\<close>

definition main :: "env \<Rightarrow> outcome option" where
  "main e =
     (if reporting_set e = [] then Some \<lparr>exit_code = 0, calls_made = [], delivered = []\<rparr>
      else (case run_commits e (commitMetas e) \<lparr>calls = [], perCommitFinal = []\<rparr> of
              None \<Rightarrow> None
            | Some st \<Rightarrow> Some (finish e st)))"

section \<open>Notions used in the statements\<close>

text \<open>Keeping the first occurrence of every element of a list.\<close>

fun first_occurrences :: "'a list \<Rightarrow> 'a list" where
  "first_occurrences [] = []"
| "first_occurrences (x # xs) = x # first_occurrences (filter (\<lambda>y. y \<noteq> x) xs)"

text \<open>The branch set that the reverse index holds for a hash.\<close>

definition members :: "('k \<rightharpoonup> 'b list) \<Rightarrow> 'k \<Rightarrow> 'b set" where
  "members idx s = (case idx s of None \<Rightarrow> {} | Some bs \<Rightarrow> set bs)"

definition nonempty_sets :: "('k \<rightharpoonup> 'b list) \<Rightarrow> bool" where
  "nonempty_sets idx \<longleftrightarrow> (\<forall>s bs. idx s = Some bs \<longrightarrow> bs \<noteq> [] \<and> distinct bs)"


definition without_markers :: "jsstring \<Rightarrow> jsstring" where
  "without_markers patch = concat (regex_split LineStart [] patch)"

text \<open>
  A small repository: two tracked branches, \<open>origin/a\<close> with the commits \<open>c1\<close>, \<open>c2\<close> in
  the window and \<open>origin/b\<close> with \<open>c1\<close>, and a cap of one commit per branch. \<open>c1\<close> has an
  empty diff. The second generation request is answered with status 500.
\<close>

definition example_env :: env where
  "example_env =
     \<lparr> PER_BRANCH_LIMIT = 1,
       DIFF_CHUNK_MAX_CHARS = 100,
       REPO = js ''org/repo'',
       LARK_WEBHOOK_URL = [],
       git_remote_branches = js ''origin/a'' @ [nl] @ js ''origin/b'',
       git_log_branch =
         (\<lambda>rb. if rb = js ''origin/a'' then js ''c1'' @ [nl] @ js ''c2'' else js ''c1''),
       git_log_all = js ''c1'' @ [nl] @ js ''c2'' @ [nl],
       git_show_subject = (\<lambda>s. js ''fix''),
       git_show_author = (\<lambda>s. js ''ann''),
       git_diff =
         (\<lambda>s. if s = js ''c1'' then [nl] else js ''diff --git a/f b/f'' @ [nl] @ js ''+x''),
       generation =
         (\<lambda>k prompt. if k = 1 then Response 500 (js ''busy'') Absent
                     else Response 200 [] (Text (js ''S''))),
       todayLabel = js ''2024-01-01'',
       lark_request_ends = (\<lambda>t. True),
       commitChunkPrompt = (\<lambda>m i n p. p),
       commitMergePrompt = (\<lambda>m ps. concat ps),
       dailyMergePrompt = (\<lambda>d items r. d) \<rparr>"


section \<open>Collection: the cap, the reverse index and the order\<close>

text \<open>
  Under a positive cap a branch keeps the last \<open>cap\<close> entries of its list, in order: at
  most \<open>cap\<close> of them, and all of them when the list is not longer than the cap.
\<close>

lemma capped_pos: "0 < cap \<Longrightarrow> capped cap xs = drop (length xs - nat cap) xs"
  by (auto simp: capped_def slice_from_def slice_def rel_index_def Let_def max_def
      nat_diff_distrib nat_add_distrib)

lemma capped_pos_length: "0 < cap \<Longrightarrow> int (length (capped cap xs)) \<le> cap"
  by (auto simp: capped_pos)

lemma capped_pos_suffix: "0 < cap \<Longrightarrow> suffix (capped cap xs) xs"
  by (simp add: capped_pos suffix_drop)

lemma capped_whole: "capped cap xs = xs" if "int (length xs) \<le> cap"
proof (cases "0 < cap")
  case True
  with that show ?thesis by (simp add: capped_pos)
next
  case False
  with that have "xs = []" by (cases xs) auto
  then show ?thesis by (simp add: capped_def slice_from_def slice_def)
qed

lemma map_of_branchToCommits:
  "map_of (branchToCommits cap log rbs m) rb =
     (if rb \<in> set rbs then Some (capped cap (log rb)) else map_of m rb)"
  by (induction rbs arbitrary: m) (auto simp: update_conv')

lemma distinct_branchToCommits:
  "distinct (map fst m) \<Longrightarrow> distinct (map fst (branchToCommits cap log rbs m))"
  by (induction rbs arbitrary: m) (auto simp: distinct_update)

lemma set_set_add: "set (set_add x s) = insert x (set s)"
  by (auto simp: set_add_def)

lemma index_branch_members:
  "members (index_branch rb shas idx) s = members idx s \<union> (if s \<in> set shas then {rb} else {})"
  by (induction shas arbitrary: idx)
     (auto simp: members_def Let_def set_set_add split: option.splits if_splits)

lemma index_branch_nonempty:
  "nonempty_sets idx \<Longrightarrow> nonempty_sets (index_branch rb shas idx)"
proof (induction shas arbitrary: idx)
  case Nil
  then show ?case by simp
next
  case (Cons a shas)
  let ?idx1 = "if idx a = None then idx(a \<mapsto> []) else idx"
  have "nonempty_sets (case ?idx1 a of None \<Rightarrow> ?idx1 | Some bs \<Rightarrow> ?idx1(a \<mapsto> set_add rb bs))"
    using Cons.prems by (auto simp: nonempty_sets_def set_add_def split: option.splits)
  from Cons.IH[OF this] show ?case by (simp add: Let_def)
qed

lemma shaToBranches_members:
  "members (shaToBranches al idx) s =
     members idx s \<union> {rb. \<exists>shas. (rb, shas) \<in> set al \<and> s \<in> set shas}"
  by (induction al idx rule: shaToBranches.induct) (auto simp: index_branch_members)

lemma shaToBranches_nonempty:
  "nonempty_sets idx \<Longrightarrow> nonempty_sets (shaToBranches al idx)"
  by (induction al idx rule: shaToBranches.induct) (auto simp: index_branch_nonempty)

lemma reverse_index_nonempty: "nonempty_sets (reverse_index e)"
  unfolding reverse_index_def
  by (rule shaToBranches_nonempty) (simp add: nonempty_sets_def)

lemma reverse_index_members:
  "members (reverse_index e) s =
     {rb \<in> set (remoteBranches e). s \<in> set (capped (PER_BRANCH_LIMIT e) (branch_list e rb))}"
proof -
  let ?al = "branchToCommits (PER_BRANCH_LIMIT e) (branch_list e) (remoteBranches e) []"
  have d: "distinct (map fst ?al)"
    by (rule distinct_branchToCommits) simp
  have "(rb, shas) \<in> set ?al \<longleftrightarrow>
          rb \<in> set (remoteBranches e) \<and> shas = capped (PER_BRANCH_LIMIT e) (branch_list e rb)"
    for rb shas
    using map_of_branchToCommits[of "PER_BRANCH_LIMIT e" "branch_list e" "remoteBranches e" "[]" rb]
      map_of_eq_Some_iff[OF d, of rb shas]
    by (auto split: if_splits)
  moreover have "members Map.empty s = ({} :: jsstring set)"
    by (simp add: members_def)
  ultimately show ?thesis
    unfolding reverse_index_def shaToBranches_members by auto
qed

lemma reverse_index_has:
  "reverse_index e s \<noteq> None \<longleftrightarrow> members (reverse_index e) s \<noteq> {}"
  using reverse_index_nonempty[of e]
  by (auto simp: nonempty_sets_def members_def split: option.splits)

lemma commitShas_skip:
  "x \<in> seen \<or> \<not> has x \<Longrightarrow>
     commitShas has seen (filter (\<lambda>y. y \<noteq> x) xs) = commitShas has seen xs"
  by (induction xs arbitrary: seen) auto

lemma set_first_occurrences: "set (first_occurrences xs) = set xs"
  by (induction xs rule: first_occurrences.induct) auto

lemma distinct_first_occurrences: "distinct (first_occurrences xs)"
  by (induction xs rule: first_occurrences.induct) (auto simp: set_first_occurrences)

lemma subseq_first_occurrences: "subseq (first_occurrences xs) xs"
proof (induction xs rule: first_occurrences.induct)
  case 1
  then show ?case by simp
next
  case (2 x xs)
  have "subseq (filter (\<lambda>y. y \<noteq> x) xs) xs" by simp
  with 2 have "subseq (first_occurrences (filter (\<lambda>y. y \<noteq> x) xs)) xs"
    using subseq_order.order_trans by blast
  then show ?case by simp
qed

lemma commitShas_filter:
  "commitShas has seen xs = filter (\<lambda>s. has s \<and> s \<notin> seen) (first_occurrences xs)"
proof (induction xs arbitrary: seen rule: first_occurrences.induct)
  case 1
  then show ?case by simp
next
  case (2 x xs)
  let ?rest = "filter (\<lambda>y. y \<noteq> x) xs"
  show ?case
  proof (cases "x \<in> seen \<or> \<not> has x")
    case True
    then have "commitShas has seen (x # xs) = commitShas has seen ?rest"
      using commitShas_skip[of x seen has xs] by auto
    with True show ?thesis using 2[of seen] by auto
  next
    case False
    have "commitShas has (insert x seen) xs = commitShas has (insert x seen) ?rest"
      using commitShas_skip[of x "insert x seen" has xs] by simp
    also have "\<dots> = filter (\<lambda>s. has s \<and> s \<notin> insert x seen) (first_occurrences ?rest)"
      by (rule 2)
    also have "\<dots> = filter (\<lambda>s. has s \<and> s \<notin> seen) (first_occurrences ?rest)"
      by (rule filter_cong) (auto simp: set_first_occurrences)
    finally show ?thesis using False by simp
  qed
qed

lemma reporting_set_filter:
  "reporting_set e =
     filter (\<lambda>s. reverse_index e s \<noteq> None) (first_occurrences (allShasOrdered e))"
  by (simp add: reporting_set_def commitShas_filter)

lemma distinct_reporting_set: "distinct (reporting_set e)"
  by (simp add: reporting_set_filter distinct_first_occurrences)

lemma sorted_map_subseq:
  fixes f :: "'a \<Rightarrow> int"
  shows "subseq ys xs \<Longrightarrow> sorted (map f xs) \<Longrightarrow> sorted (map f ys)"
proof (induction rule: list_emb.induct)
  case (list_emb_Nil ys)
  then show ?case by simp
next
  case (list_emb_Cons xs ys y)
  then show ?case by simp
next
  case (list_emb_Cons2 x y xs ys)
  from list_emb_Cons2.hyps(2) have "set xs \<subseteq> set ys"
    by (auto dest: list_emb_set)
  with list_emb_Cons2 show ?case by auto
qed

lemma sha_commitMetas: "map sha (commitMetas e) = reporting_set e"
  by (simp add: commitMetas_def commitMeta_def comp_def)

lemma branches_commitMeta: "set (branches (commitMeta e s)) = members (reverse_index e) s"
  by (simp add: commitMeta_def members_def split: option.splits)

text \<open>
  Claim C4, at the cap 0: \<open>list.slice(-0)\<close> is \<open>list.slice(0)\<close>, the whole list, so a
  branch with two commits in the window contributes both of them to the reverse index,
  more than the cap.
\<close>

theorem C4_cap_zero_keeps_every_commit:
  "branchToCommits 0 (\<lambda>rb. [js ''c1'', js ''c2'']) [js ''origin/main''] []
     = [(js ''origin/main'', [js ''c1'', js ''c2''])]
   \<and> int (length (capped 0 [js ''c1'', js ''c2''])) > 0"
  by (simp add: capped_def slice_from_def slice_def rel_index_def)

text \<open>
  Claim C1, as the code has it: the reporting set holds every hash once, and the branch
  set of a record is the set of tracked branches whose capped list holds the hash. It is
  never empty. It is the set of all tracked branches that list the commit in the window
  when no branch's list is longer than the cap.
\<close>

theorem C1_one_record_per_hash_with_capped_branch_set:
  "distinct (map sha (commitMetas e))
   \<and> (\<forall>m \<in> set (commitMetas e).
        set (branches m) =
          {rb \<in> set (remoteBranches e).
             sha m \<in> set (capped (PER_BRANCH_LIMIT e) (branch_list e rb))}
        \<and> branches m \<noteq> [])
   \<and> ((\<forall>rb \<in> set (remoteBranches e). int (length (branch_list e rb)) \<le> PER_BRANCH_LIMIT e)
        \<longrightarrow> (\<forall>m \<in> set (commitMetas e).
               set (branches m) =
                 {rb \<in> set (remoteBranches e). sha m \<in> set (branch_list e rb)}))"
proof -
  have a: "distinct (map sha (commitMetas e))"
    by (simp add: sha_commitMetas distinct_reporting_set)
  have b: "set (branches m) =
             {rb \<in> set (remoteBranches e).
                sha m \<in> set (capped (PER_BRANCH_LIMIT e) (branch_list e rb))}
           \<and> branches m \<noteq> []" if "m \<in> set (commitMetas e)" for m
  proof -
    from that obtain s where s: "s \<in> set (reporting_set e)" and m: "m = commitMeta e s"
      by (auto simp: commitMetas_def)
    from s have "reverse_index e s \<noteq> None"
      by (simp add: reporting_set_filter)
    then have ne: "members (reverse_index e) s \<noteq> {}"
      using reverse_index_has[of e s] by blast
    have sm: "sha m = s" by (simp add: m commitMeta_def)
    have "set (branches m) = members (reverse_index e) s"
      by (simp add: m branches_commitMeta)
    with ne show ?thesis
      by (auto simp: reverse_index_members sm)
  qed
  have c: "set (branches m) = {rb \<in> set (remoteBranches e). sha m \<in> set (branch_list e rb)}"
    if "\<forall>rb \<in> set (remoteBranches e). int (length (branch_list e rb)) \<le> PER_BRANCH_LIMIT e"
      and "m \<in> set (commitMetas e)" for m
    using b[OF that(2)] that(1) by (auto simp: capped_whole)
  from a b c show ?thesis by blast
qed

subsection \<open>The example repository, evaluated\<close>

lemmas js_eval = js_def nl_def is_ws_def trim_def sh_def listing_def split_on_def

lemmas slice_eval = capped_def slice_from_def slice_def rel_index_def

lemma example_remoteBranches:
  "remoteBranches (example_env\<lparr>PER_BRANCH_LIMIT := c\<rparr>) = [js ''origin/a'', js ''origin/b'']"
  by (simp add: example_env_def remoteBranches_def js_eval)

lemma example_branch_list:
  "branch_list (example_env\<lparr>PER_BRANCH_LIMIT := c\<rparr>) rb =
     (if rb = js ''origin/a'' then [js ''c1'', js ''c2''] else [js ''c1''])"
  by (simp add: example_env_def branch_list_def js_eval)

lemma example_allShasOrdered:
  "allShasOrdered (example_env\<lparr>PER_BRANCH_LIMIT := c\<rparr>) = [js ''c1'', js ''c2'']"
  by (simp add: example_env_def allShasOrdered_def js_eval)

lemma example_env_cap: "example_env\<lparr>PER_BRANCH_LIMIT := 1\<rparr> = example_env"
  by (simp add: example_env_def)

lemma example_members:
  "members (reverse_index (example_env\<lparr>PER_BRANCH_LIMIT := 1\<rparr>)) s =
     (if s = js ''c1'' then {js ''origin/b''} else if s = js ''c2'' then {js ''origin/a''} else {})"
  by (auto simp: reverse_index_members example_remoteBranches example_branch_list slice_eval
      js_def)

lemma example_members_uncapped:
  "members (reverse_index (example_env\<lparr>PER_BRANCH_LIMIT := 5\<rparr>)) s =
     (if s = js ''c1'' then {js ''origin/a'', js ''origin/b''}
      else if s = js ''c2'' then {js ''origin/a''} else {})"
  by (auto simp: reverse_index_members example_remoteBranches example_branch_list slice_eval
      js_def)

lemma example_reporting_set:
  "reporting_set (example_env\<lparr>PER_BRANCH_LIMIT := 1\<rparr>) = [js ''c1'', js ''c2'']"
  unfolding reporting_set_filter example_allShasOrdered reverse_index_has example_members
  by (simp add: js_def)

lemma example_reporting_set_uncapped:
  "reporting_set (example_env\<lparr>PER_BRANCH_LIMIT := 5\<rparr>) = [js ''c1'', js ''c2'']"
  unfolding reporting_set_filter example_allShasOrdered reverse_index_has
    example_members_uncapped
  by (simp add: js_def)

theorem C1_one_record_per_hash_with_capped_branch_set_witness:
  "map (\<lambda>rb. int (length (branch_list (example_env\<lparr>PER_BRANCH_LIMIT := 5\<rparr>) rb)))
       (remoteBranches (example_env\<lparr>PER_BRANCH_LIMIT := 5\<rparr>)) = [2, 1]
   \<and> map sha (commitMetas (example_env\<lparr>PER_BRANCH_LIMIT := 5\<rparr>)) = [js ''c1'', js ''c2'']
   \<and> map (\<lambda>m. set (branches m)) (commitMetas (example_env\<lparr>PER_BRANCH_LIMIT := 5\<rparr>))
       = [{js ''origin/a'', js ''origin/b''}, {js ''origin/a''}]"
proof -
  let ?e = "example_env\<lparr>PER_BRANCH_LIMIT := 5\<rparr>"
  have cap: "PER_BRANCH_LIMIT ?e = 5" by simp
  have l: "map (\<lambda>rb. int (length (branch_list ?e rb))) (remoteBranches ?e) = [2, 1]"
    by (simp add: example_remoteBranches example_branch_list) (simp add: js_def)
  then have h: "\<forall>rb \<in> set (remoteBranches ?e). int (length (branch_list ?e rb)) \<le> 5"
    by (simp add: example_remoteBranches example_branch_list)
  have s: "map sha (commitMetas ?e) = [js ''c1'', js ''c2'']"
    by (simp add: sha_commitMetas example_reporting_set_uncapped)
  have "\<forall>m \<in> set (commitMetas ?e).
          set (branches m) = {rb \<in> set (remoteBranches ?e). sha m \<in> set (branch_list ?e rb)}"
    using C1_one_record_per_hash_with_capped_branch_set[of ?e] h unfolding cap by blast
  then have "map (\<lambda>m. set (branches m)) (commitMetas ?e)
               = map (\<lambda>m. {rb \<in> set (remoteBranches ?e). sha m \<in> set (branch_list ?e rb)})
                   (commitMetas ?e)"
    by simp
  also have "\<dots> = map (\<lambda>s. {rb \<in> set (remoteBranches ?e). s \<in> set (branch_list ?e rb)})
                      (map sha (commitMetas ?e))"
    by (simp add: comp_def)
  also have "\<dots> = [{js ''origin/a'', js ''origin/b''}, {js ''origin/a''}]"
    unfolding s by (auto simp: example_remoteBranches example_branch_list js_def)
  finally show ?thesis using l s by simp
qed

text \<open>
  Claim C1 as stated fails under the cap: with a cap of one commit, \<open>origin/a\<close> lists
  \<open>c1\<close> and \<open>c2\<close> in the window and keeps \<open>c2\<close> only, so the record of \<open>c1\<close> names
  \<open>origin/b\<close> alone although \<open>c1\<close> is also on \<open>origin/a\<close>.
\<close>

theorem C1_counterexample:
  "commitMeta example_env (js ''c1'') \<in> set (commitMetas example_env)
   \<and> set (branches (commitMeta example_env (js ''c1''))) = {js ''origin/b''}
   \<and> js ''origin/a'' \<in> {rb \<in> set (remoteBranches example_env).
         sha (commitMeta example_env (js ''c1'')) \<in> set (branch_list example_env rb)}
   \<and> set (branches (commitMeta example_env (js ''c1''))) \<noteq>
       {rb \<in> set (remoteBranches example_env).
          sha (commitMeta example_env (js ''c1'')) \<in> set (branch_list example_env rb)}"
proof -
  have m: "commitMeta example_env (js ''c1'') \<in> set (commitMetas example_env)"
    using example_reporting_set by (simp add: commitMetas_def example_env_cap)
  have b: "set (branches (commitMeta example_env (js ''c1''))) = {js ''origin/b''}"
    using example_members[of "js ''c1''"] by (simp add: branches_commitMeta example_env_cap)
  have a: "js ''origin/a'' \<in> {rb \<in> set (remoteBranches example_env).
             sha (commitMeta example_env (js ''c1'')) \<in> set (branch_list example_env rb)}"
    using example_remoteBranches[of 1] example_branch_list[of 1 "js ''origin/a''"]
    by (simp add: example_env_cap commitMeta_def)
  have "js ''origin/a'' \<notin> {js ''origin/b''}"
    by (simp add: js_def)
  with a have "{js ''origin/b''} \<noteq> {rb \<in> set (remoteBranches example_env).
             sha (commitMeta example_env (js ''c1'')) \<in> set (branch_list example_env rb)}"
    by blast
  with a b m show ?thesis by (simp only: simp_thms)
qed

text \<open>
  Claim C5: the reporting sequence is the listing of all refs, reduced to the first
  occurrence of every hash and then to the hashes of the reverse index. It is a
  subsequence of that listing, so it is non-decreasing in commit time when the listing
  is, whatever the order in which the branches were read.
\<close>

theorem C5_reporting_order_is_global_order:
  fixes time :: "jsstring \<Rightarrow> int"
  shows "reporting_set e =
           filter (\<lambda>s. reverse_index e s \<noteq> None) (first_occurrences (allShasOrdered e))
         \<and> subseq (reporting_set e) (allShasOrdered e)
         \<and> (sorted (map time (allShasOrdered e)) \<longrightarrow> sorted (map time (reporting_set e)))"
proof -
  have "subseq (reporting_set e) (first_occurrences (allShasOrdered e))"
    by (simp add: reporting_set_filter)
  then have sub: "subseq (reporting_set e) (allShasOrdered e)"
    using subseq_first_occurrences subseq_order.order_trans by blast
  then show ?thesis
    using reporting_set_filter sorted_map_subseq by blast
qed

theorem C5_reporting_order_is_global_order_witness:
  "sorted (map (\<lambda>s. if s = js ''c1'' then 1 else (2::int)) (allShasOrdered example_env))
   \<and> reporting_set example_env = [js ''c1'', js ''c2'']
   \<and> sorted (map (\<lambda>s. if s = js ''c1'' then 1 else (2::int)) (reporting_set example_env))"
proof -
  have h: "sorted (map (\<lambda>s. if s = js ''c1'' then 1 else (2::int)) (allShasOrdered example_env))"
    using example_allShasOrdered[of 1] by (simp add: example_env_cap)
  have r: "reporting_set example_env = [js ''c1'', js ''c2'']"
    using example_reporting_set by (simp add: example_env_cap)
  from C5_reporting_order_is_global_order[of example_env "\<lambda>s. if s = js ''c1'' then 1 else 2"] h r
  show ?thesis by blast
qed

section \<open>Chunking: the size bound and the order of the units\<close>

lemma slice_step:
  assumes "0 \<le> i" "i < int (length p)" "0 < l"
  shows "slice p i (i + l) = take (nat l) (drop (nat i) p)"
proof (cases "i + l \<le> int (length p)")
  case True
  with assms show ?thesis
    by (simp add: slice_def rel_index_def Let_def min_def)
next
  case False
  with assms have "slice p i (i + l) = take (length p - nat i) (drop (nat i) p)"
    by (simp add: slice_def rel_index_def Let_def min_def nat_diff_distrib)
  also have "\<dots> = drop (nat i) p" by simp
  also have "\<dots> = take (nat l) (drop (nat i) p)"
    using False assms by simp
  finally show ?thesis .
qed

lemma force_slices_pos:
  assumes "0 < limit"
  shows "0 \<le> i \<Longrightarrow>
         \<exists>sl. force_slices p limit i out = Some (out @ sl)
              \<and> (\<forall>c \<in> set sl. int (length c) \<le> limit)
              \<and> concat sl = drop (nat i) p"
proof (induction "nat (int (length p) - i)" arbitrary: i out rule: less_induct)
  case less
  show ?case
  proof (cases "i < int (length p)")
    case True
    let ?s = "slice p i (i + limit)"
    have "nat (int (length p) - (i + limit)) < nat (int (length p) - i)"
      using True assms by linarith
    moreover have "0 \<le> i + limit" using less.prems assms by simp
    ultimately obtain sl where sl:
      "force_slices p limit (i + limit) (out @ [?s]) = Some ((out @ [?s]) @ sl)"
      "\<forall>c \<in> set sl. int (length c) \<le> limit"
      "concat sl = drop (nat (i + limit)) p"
      using less.hyps[of "i + limit" "out @ [?s]"] by blast
    have s: "?s = take (nat limit) (drop (nat i) p)"
      using slice_step[OF less.prems True assms] .
    have "force_slices p limit i out = Some (out @ (?s # sl))"
      using True sl(1) by (subst force_slices.simps) simp
    moreover have "int (length ?s) \<le> limit"
      unfolding s using assms by simp
    moreover have "concat (?s # sl) = drop (nat i) p"
    proof -
      have d: "drop (nat (i + limit)) p = drop (nat limit) (drop (nat i) p)"
        using less.prems assms by (simp add: nat_add_distrib add.commute)
      have "concat (?s # sl) = ?s @ drop (nat (i + limit)) p"
        by (simp add: sl(3))
      also have "\<dots> = take (nat limit) (drop (nat i) p) @ drop (nat limit) (drop (nat i) p)"
        unfolding d s ..
      also have "\<dots> = drop (nat i) p"
        by (rule append_take_drop_id)
      finally show ?thesis .
    qed
    ultimately show ?thesis using sl(2) by (intro exI[of _ "?s # sl"]) simp
  next
    case False
    then have "force_slices p limit i out = Some out"
      by (subst force_slices.simps) simp
    with False show ?thesis by simp
  qed
qed

lemma force_slices_nonpos:
  assumes "force_slices p limit i out = Some y"
  shows "limit \<le> 0 \<longrightarrow> int (length p) \<le> i \<and> y = out"
proof (rule force_slices.raw_induct
    [where P = "\<lambda>p limit i out y. limit \<le> 0 \<longrightarrow> int (length p) \<le> i \<and> y = out", OF _ assms])
  fix f p limit i out y
  assume IH: "\<And>p limit i out y. f p limit i out = Some y \<Longrightarrow>
                limit \<le> 0 \<longrightarrow> int (length p) \<le> i \<and> y = out"
    and body: "(if i < int (length p)
                then f p limit (i + limit) (out @ [slice p i (i + limit)])
                else Some out) = Some y"
  show "limit \<le> 0 \<longrightarrow> int (length p) \<le> i \<and> y = out"
  proof (cases "i < int (length p)")
    case True
    with body have "f p limit (i + limit) (out @ [slice p i (i + limit)]) = Some y"
      by simp
    from IH[OF this] True show ?thesis by auto
  next
    case False
    with body show ?thesis by simp
  qed
qed

lemma force_slices_Some:
  assumes "force_slices p limit 0 out = Some y"
  shows "\<exists>sl. y = out @ sl \<and> (\<forall>c \<in> set sl. int (length c) \<le> limit) \<and> concat sl = p"
proof (cases "0 < limit")
  case True
  from force_slices_pos[OF True, of 0 p out] assms show ?thesis by auto
next
  case False
  with force_slices_nonpos[OF assms] have "p = []" "y = out" by auto
  then show ?thesis by simp
qed

lemma chunk_loop_total:
  "0 < limit \<Longrightarrow> \<exists>r. chunk_loop limit ps out buf = Some r"
proof (induction ps arbitrary: out buf)
  case Nil
  then show ?case by simp
next
  case (Cons p ps)
  show ?case
  proof (cases "int (length (if buf \<noteq> [] then buf @ joiner @ p else p)) > limit
                 \<and> int (length p) > limit")
    case True
    obtain sl where "force_slices p limit 0 (if buf \<noteq> [] then out @ [buf] else out)
                       = Some ((if buf \<noteq> [] then out @ [buf] else out) @ sl)"
      using force_slices_pos[OF Cons.prems, of 0 p] by blast
    with True Cons.IH[OF Cons.prems] show ?thesis
      by (simp add: Let_def)
  next
    case False
    with Cons.IH[OF Cons.prems] show ?thesis
      by (auto simp: Let_def)
  qed
qed

lemma chunk_loop_bound:
  "chunk_loop limit ps out buf = Some (out', buf') \<Longrightarrow>
   \<forall>c \<in> set out. int (length c) \<le> limit \<Longrightarrow>
   buf = [] \<or> int (length buf) \<le> limit \<Longrightarrow>
   (\<forall>c \<in> set out'. int (length c) \<le> limit) \<and> (buf' = [] \<or> int (length buf') \<le> limit)"
proof (induction ps arbitrary: out buf)
  case Nil
  then show ?case by simp
next
  case (Cons p ps)
  let ?candidate = "if buf \<noteq> [] then buf @ joiner @ p else p"
  let ?out1 = "if buf \<noteq> [] then out @ [buf] else out"
  have out1: "\<forall>c \<in> set ?out1. int (length c) \<le> limit"
    using Cons.prems(2,3) by auto
  consider (fits) "\<not> int (length ?candidate) > limit"
    | (seed) "int (length ?candidate) > limit" "\<not> int (length p) > limit"
    | (forced) "int (length ?candidate) > limit" "int (length p) > limit"
    by blast
  then show ?case
  proof cases
    case fits
    then have "chunk_loop limit ps out ?candidate = Some (out', buf')"
      using Cons.prems(1) by (simp add: Let_def)
    from Cons.IH[OF this Cons.prems(2)] fits show ?thesis by simp
  next
    case seed
    then have "chunk_loop limit ps ?out1 p = Some (out', buf')"
      using Cons.prems(1) by (simp add: Let_def)
    from Cons.IH[OF this out1] seed show ?thesis by simp
  next
    case forced
    then obtain out2 where o2: "force_slices p limit 0 ?out1 = Some out2"
      and l: "chunk_loop limit ps out2 [] = Some (out', buf')"
      using Cons.prems(1) by (auto simp: Let_def split: option.splits if_splits)
    from force_slices_Some[OF o2] out1 have "\<forall>c \<in> set out2. int (length c) \<le> limit"
      by auto
    from Cons.IH[OF l this] show ?thesis by simp
  qed
qed

text \<open>
  Claim C2: under a positive limit the packing returns, and whenever it returns (under any
  limit) no chunk is longer than the limit, a forced slice included.
\<close>

theorem C2_every_chunk_within_limit:
  "(0 < limit \<longrightarrow> chunkBySize parts limit \<noteq> None)
   \<and> (\<forall>out. chunkBySize parts limit = Some out \<longrightarrow> (\<forall>c \<in> set out. int (length c) \<le> limit))"
proof -
  have "chunkBySize parts limit \<noteq> None" if "0 < limit"
    using chunk_loop_total[OF that, of parts "[]" "[]"]
    by (auto simp: chunkBySize_def)
  moreover have "\<forall>c \<in> set out. int (length c) \<le> limit"
    if "chunkBySize parts limit = Some out" for out
  proof -
    from that obtain out' buf' where l: "chunk_loop limit parts [] [] = Some (out', buf')"
      and out: "out = (if buf' \<noteq> [] then out' @ [buf'] else out')"
      by (auto simp: chunkBySize_def split: option.splits)
    from chunk_loop_bound[OF l] show ?thesis
      unfolding out by auto
  qed
  ultimately show ?thesis by blast
qed

lemmas chunk_eval = chunkBySize_def force_slices.simps slice_def rel_index_def joiner_def
  js_def nl_def Let_def

theorem C2_every_chunk_within_limit_witness:
  "(0::int) < 3
   \<and> chunkBySize [js ''abcdefg'', js ''hi'', js ''j'', js ''klm''] 3
       = Some [js ''abc'', js ''def'', js ''g'', js ''hi'', js ''j'', js ''klm'']
   \<and> list_all (\<lambda>c. int (length c) \<le> 3)
        [js ''abc'', js ''def'', js ''g'', js ''hi'', js ''j'', js ''klm'']"
proof -
  have e: "chunkBySize [js ''abcdefg'', js ''hi'', js ''j'', js ''klm''] 3
             = Some [js ''abc'', js ''def'', js ''g'', js ''hi'', js ''j'', js ''klm'']"
    by (simp add: chunk_eval)
  from C2_every_chunk_within_limit[of 3 "[js ''abcdefg'', js ''hi'', js ''j'', js ''klm'']"] e
  have "\<forall>c \<in> set [js ''abc'', js ''def'', js ''g'', js ''hi'', js ''j'', js ''klm''].
          int (length c) \<le> 3"
    by blast
  with e show ?thesis by (simp add: list_all_iff)
qed















lemmas split_eval = splitPatchByFile_def without_markers_def marker_def
  is_line_terminator_def trim_def is_ws_def js_def nl_def






section \<open>Summarization: placeholders and fallbacks\<close>


lemma part_summary_nonempty: "part_summary k r \<noteq> []"
  by (cases r) (simp_all add: part_summary_def empty_part_placeholder_def
      failed_part_placeholder_def)

lemma summarize_chunks_eq:
  "summarize_chunks e meta n i chunks parts cs =
     (parts @ map (\<lambda>k. part_summary (i + k + 1)
                          (chat_result (generation e (length cs + k)
                             (commitChunkPrompt e meta (i + k + 1) n (chunks ! k)))))
                [0..<length chunks],
      cs @ map (\<lambda>k. commitChunkPrompt e meta (i + k + 1) n (chunks ! k)) [0..<length chunks])"
proof (induction chunks arbitrary: i parts cs)
  case Nil
  then show ?case by simp
next
  case (Cons c rest)
  show ?case
    by (simp add: chat_def Cons.IH map_upt_Suc del: upt_Suc)
qed

text \<open>
  Claim C10: the summaries accumulated for the chunks of a commit are, in chunk order,
  the outcome of one generation request per chunk passed through \<open>sum || placeholder\<close>
  or the handler: the \<open>k\<close>-th request carries the prompt of the \<open>k\<close>-th chunk, a rejected
  request gives the failure placeholder with its number and error text, a resolved
  empty text gives the empty-result placeholder, a resolved non-empty text is kept.
  Both placeholders are non-empty, so no accumulated summary is the empty string, and
  there is one summary per chunk.
\<close>

theorem C10_chunk_summaries_are_nonempty:
  "fst (summarize_chunks e meta n i chunks [] cs)
     = map (\<lambda>k. part_summary (i + k + 1)
                  (chat_result (generation e (length cs + k)
                     (commitChunkPrompt e meta (i + k + 1) n (chunks ! k)))))
         [0..<length chunks]
   \<and> snd (summarize_chunks e meta n i chunks [] cs)
       = cs @ map (\<lambda>k. commitChunkPrompt e meta (i + k + 1) n (chunks ! k)) [0..<length chunks]
   \<and> part_summary j (Inl err) = failed_part_placeholder j err
   \<and> part_summary j (Inr []) = empty_part_placeholder j
   \<and> part_summary j (Inr (c # t)) = c # t
   \<and> failed_part_placeholder j err \<noteq> []
   \<and> empty_part_placeholder j \<noteq> []
   \<and> [] \<notin> set (fst (summarize_chunks e meta n i chunks [] cs))
   \<and> length (fst (summarize_chunks e meta n i chunks [] cs)) = length chunks"
proof -
  have "[] \<notin> set (fst (summarize_chunks e meta n i chunks [] cs))"
    by (auto simp: summarize_chunks_eq part_summary_nonempty[symmetric])
  moreover have "length (fst (summarize_chunks e meta n i chunks [] cs)) = length chunks"
    by (simp add: summarize_chunks_eq)
  moreover have "fst (summarize_chunks e meta n i chunks [] cs)
     = map (\<lambda>k. part_summary (i + k + 1)
                  (chat_result (generation e (length cs + k)
                     (commitChunkPrompt e meta (i + k + 1) n (chunks ! k)))))
         [0..<length chunks]"
    by (simp add: summarize_chunks_eq)
  moreover have "snd (summarize_chunks e meta n i chunks [] cs)
       = cs @ map (\<lambda>k. commitChunkPrompt e meta (i + k + 1) n (chunks ! k)) [0..<length chunks]"
    by (simp add: summarize_chunks_eq)
  ultimately show ?thesis
    by (simp add: part_summary_def empty_part_placeholder_def failed_part_placeholder_def)
qed

text \<open>
  Three chunks: the first request resolves with white space only, the second is answered
  with status 500, the third resolves with \<open>S\<close>.
\<close>

theorem C10_chunk_summaries_are_nonempty_witness:
  "fst (summarize_chunks
          (example_env\<lparr>generation := \<lambda>k p.
              if k = 0 then Response 200 [] (Text (js '' ''))
              else if k = 1 then Response 500 (js ''busy'') Absent
              else Response 200 [] (Text (js ''S''))\<rparr>)
          (commitMeta example_env (js ''c2'')) 3 0 [js ''a'', js ''b'', js ''c''] [] [])
     = [empty_part_placeholder 1,
        failed_part_placeholder 2 (js ''Error: OpenAI HTTP 500: busy''),
        js ''S'']
   \<and> snd (summarize_chunks
          (example_env\<lparr>generation := \<lambda>k p.
              if k = 0 then Response 200 [] (Text (js '' ''))
              else if k = 1 then Response 500 (js ''busy'') Absent
              else Response 200 [] (Text (js ''S''))\<rparr>)
          (commitMeta example_env (js ''c2'')) 3 0 [js ''a'', js ''b'', js ''c''] [] [])
     = [js ''a'', js ''b'', js ''c'']"
proof -
  let ?g = "\<lambda>(k::nat) (p::jsstring).
              if k = 0 then Response 200 [] (Text (js '' ''))
              else if k = 1 then Response 500 (js ''busy'') Absent
              else Response 200 [] (Text (js ''S''))"
  let ?e = "example_env\<lparr>generation := ?g\<rparr>"
  let ?m = "commitMeta example_env (js ''c2'')"
  have d: "dec 500 = js ''500''"
    by (simp add: dec.simps js_def)
  have u: "[0..<length [js ''a'', js ''b'', js ''c'']] = [0, 1, 2]"
    by (simp add: upt_rec)
  from C10_chunk_summaries_are_nonempty
    [of ?e ?m 3 0 "[js ''a'', js ''b'', js ''c'']" "[]" 1 "js ''x''" "0x53" "[]"]
  have f: "fst (summarize_chunks ?e ?m 3 0 [js ''a'', js ''b'', js ''c''] [] [])
             = map (\<lambda>k. part_summary (0 + k + 1)
                          (chat_result (generation ?e (length ([]::jsstring list) + k)
                             (commitChunkPrompt ?e ?m (0 + k + 1) 3
                                ([js ''a'', js ''b'', js ''c''] ! k))))) [0, 1, 2]"
    and s: "snd (summarize_chunks ?e ?m 3 0 [js ''a'', js ''b'', js ''c''] [] [])
             = [] @ map (\<lambda>k. commitChunkPrompt ?e ?m (0 + k + 1) 3
                                ([js ''a'', js ''b'', js ''c''] ! k)) [0, 1, 2]"
    unfolding u by blast+
  show ?thesis
    unfolding f s
    by (simp add: chat_result_def part_summary_def d example_env_def js_eval
        failed_part_placeholder_def empty_part_placeholder_def dec.simps)
qed

text \<open>
  Claim C6: a commit whose diff is empty or white space only adds the one fixed
  placeholder, which is not the empty string, to the per-commit summaries; the list of
  generation requests is unchanged, and the step returns.
\<close>

theorem C6_empty_diff_gives_one_placeholder:
  assumes "getDiff e (sha meta) = [] \<or> trim (getDiff e (sha meta)) = []"
  shows "process_commit e meta st
           = Some (st\<lparr>perCommitFinal := perCommitFinal st @ [(meta, no_change_placeholder)]\<rparr>)
         \<and> map_option calls (process_commit e meta st) = Some (calls st)
         \<and> no_change_placeholder \<noteq> []"
  using assms by (auto simp: process_commit_def Let_def no_change_placeholder_def)

text \<open>
  Claim C8: when the merge request of a commit is rejected, the commit's summary is its
  chunk-level summaries, in chunk order, joined by a blank line; the step returns, keeps
  the summaries recorded before, and the run goes on with the next commit.
\<close>

theorem C8_merge_failure_falls_back_to_chunk_summaries:
  assumes "\<not> (getDiff e (sha meta) = [] \<or> trim (getDiff e (sha meta)) = [])"
    and "chunkBySize (splitPatchByFile (getDiff e (sha meta))) (DIFF_CHUNK_MAX_CHARS e)
           = Some chunks"
    and "partSummaries =
           map (\<lambda>k. part_summary (k + 1)
                      (chat_result (generation e (length (calls st) + k)
                         (commitChunkPrompt e meta (k + 1) (length chunks) (chunks ! k)))))
             [0..<length chunks]"
    and "cs1 = calls st
           @ map (\<lambda>k. commitChunkPrompt e meta (k + 1) (length chunks) (chunks ! k))
               [0..<length chunks]"
    and "chat_result (generation e (length cs1) (commitMergePrompt e meta partSummaries))
           = Inl err"
  shows "process_commit e meta st
           = Some \<lparr>calls = cs1 @ [commitMergePrompt e meta partSummaries],
                   perCommitFinal = perCommitFinal st @ [(meta, join joiner partSummaries)]\<rparr>
         \<and> run_commits e (meta # metas) st
             = run_commits e metas
                 \<lparr>calls = cs1 @ [commitMergePrompt e meta partSummaries],
                  perCommitFinal = perCommitFinal st @ [(meta, join joiner partSummaries)]\<rparr>"
proof -
  have s: "summarize_chunks e meta (length chunks) 0 chunks [] (calls st) = (partSummaries, cs1)"
    by (simp add: summarize_chunks_eq assms(3,4))
  have "process_commit e meta st
          = Some \<lparr>calls = cs1 @ [commitMergePrompt e meta partSummaries],
                  perCommitFinal = perCommitFinal st @ [(meta, join joiner partSummaries)]\<rparr>"
    using assms(1,2,5) by (simp add: process_commit_def Let_def s chat_def)
  then show ?thesis by simp
qed







text \<open>
  Claim C9: with an empty reporting set the run ends at once with status 0, with no
  generation request and nothing delivered. The reporting set is empty when no tracked
  branch lists a commit in the window, and when the listing of all refs is empty.
\<close>

theorem C9_empty_window_ends_silently:
  "(reporting_set e = [] \<longrightarrow>
      main e = Some \<lparr>exit_code = 0, calls_made = [], delivered = []\<rparr>)
   \<and> ((\<forall>rb \<in> set (remoteBranches e). branch_list e rb = []) \<longrightarrow> reporting_set e = [])
   \<and> (allShasOrdered e = [] \<longrightarrow> reporting_set e = [])"
proof -
  have "reporting_set e = []" if "\<forall>rb \<in> set (remoteBranches e). branch_list e rb = []"
  proof -
    have "members (reverse_index e) s = {}" for s
      using that by (auto simp: reverse_index_members capped_def slice_from_def slice_def)
    then have "reverse_index e s = None" for s
      using reverse_index_has[of e s] by blast
    then show ?thesis by (simp add: reporting_set_filter)
  qed
  moreover have "reporting_set e = []" if "allShasOrdered e = []"
    using that by (simp add: reporting_set_def)
  ultimately show ?thesis by (simp add: main_def)
qed

subsection \<open>The example run, evaluated\<close>

lemma sha_commitMeta: "sha (commitMeta e s) = s"
  by (simp add: commitMeta_def)

lemma example_getDiff_c1: "getDiff (example_env\<lparr>generation := g\<rparr>) (js ''c1'') = []"
  by (simp add: example_env_def getDiff_def js_eval)

lemma example_getDiff_c2:
  "getDiff (example_env\<lparr>DIFF_CHUNK_MAX_CHARS := l, generation := g\<rparr>) (js ''c2'')
     = js ''diff --git a/f b/f'' @ [nl] @ js ''+x''"
  by (simp add: example_env_def getDiff_def js_eval)

lemma example_slices:
  "chunkBySize (splitPatchByFile (js ''diff --git a/f b/f'' @ [nl] @ js ''+x'')) 1
     = Some [js ''+'', js ''x'']"
  by (simp add: split_eval chunk_eval)

theorem C6_empty_diff_gives_one_placeholder_witness:
  "getDiff example_env (sha (commitMeta example_env (js ''c1''))) = []
   \<and> process_commit example_env (commitMeta example_env (js ''c1''))
         \<lparr>calls = [], perCommitFinal = []\<rparr>
       = Some \<lparr>calls = [],
               perCommitFinal = [(commitMeta example_env (js ''c1''), no_change_placeholder)]\<rparr>"
proof -
  have "example_env\<lparr>generation := generation example_env\<rparr> = example_env" by simp
  with example_getDiff_c1[of "generation example_env"]
  have h: "getDiff example_env (sha (commitMeta example_env (js ''c1''))) = []"
    by (simp add: sha_commitMeta)
  then have "getDiff example_env (sha (commitMeta example_env (js ''c1''))) = []
             \<or> trim (getDiff example_env (sha (commitMeta example_env (js ''c1'')))) = []"
    by simp
  from C6_empty_diff_gives_one_placeholder[OF this, of "\<lparr>calls = [], perCommitFinal = []\<rparr>"] h
  show ?thesis by simp
qed

theorem C8_merge_failure_falls_back_to_chunk_summaries_witness:
  "process_commit
     (example_env\<lparr>DIFF_CHUNK_MAX_CHARS := 1,
        generation := \<lambda>k p. if k = 2 then RequestError (js ''reset'')
                              else Response 200 [] (Text p)\<rparr>)
     (commitMeta example_env (js ''c2''))
     \<lparr>calls = [], perCommitFinal = []\<rparr>
   = Some \<lparr>calls = [js ''+'', js ''x'', js ''+x''],
           perCommitFinal = [(commitMeta example_env (js ''c2''), js ''+'' @ [nl, nl] @ js ''x'')]\<rparr>"
proof -
  let ?g = "\<lambda>k p. if k = (2::nat) then RequestError (js ''reset'') else Response 200 [] (Text p)"
  let ?e = "example_env\<lparr>DIFF_CHUNK_MAX_CHARS := 1, generation := ?g\<rparr>"
  let ?m = "commitMeta example_env (js ''c2'')"
  let ?st = "\<lparr>calls = [], perCommitFinal = []\<rparr> :: run"
  have d: "getDiff ?e (sha ?m) = js ''diff --git a/f b/f'' @ [nl] @ js ''+x''"
    by (simp only: sha_commitMeta example_getDiff_c2)
  have h1: "\<not> (getDiff ?e (sha ?m) = [] \<or> trim (getDiff ?e (sha ?m)) = [])"
    unfolding d by (simp add: js_eval)
  have h2: "chunkBySize (splitPatchByFile (getDiff ?e (sha ?m))) (DIFF_CHUNK_MAX_CHARS ?e)
              = Some [js ''+'', js ''x'']"
    unfolding d using example_slices by simp
  have h3: "[js ''+'', js ''x''] =
              map (\<lambda>k. part_summary (k + 1)
                         (chat_result (generation ?e (length (calls ?st) + k)
                            (commitChunkPrompt ?e ?m (k + 1) (length [js ''+'', js ''x''])
                               ([js ''+'', js ''x''] ! k)))))
                [0..<length [js ''+'', js ''x'']]"
    by (simp add: example_env_def part_summary_def chat_result_def js_eval upt_rec)
  have h4: "[js ''+'', js ''x''] = calls ?st
              @ map (\<lambda>k. commitChunkPrompt ?e ?m (k + 1) (length [js ''+'', js ''x''])
                           ([js ''+'', js ''x''] ! k))
                  [0..<length [js ''+'', js ''x'']]"
    by (simp add: example_env_def upt_rec)
  have h5: "chat_result (generation ?e (length [js ''+'', js ''x''])
              (commitMergePrompt ?e ?m [js ''+'', js ''x''])) = Inl (js ''reset'')"
    by (simp add: chat_result_def)
  from C8_merge_failure_falls_back_to_chunk_summaries[OF h1 h2 h3 h4 h5]
  show ?thesis
    by (simp add: example_env_def joiner_def js_def)
qed


theorem C9_empty_window_ends_silently_witness:
  "map (branch_list (example_env\<lparr>git_log_branch := \<lambda>rb. [], git_log_all := []\<rparr>))
       (remoteBranches (example_env\<lparr>git_log_branch := \<lambda>rb. [], git_log_all := []\<rparr>))
     = [[], []]
   \<and> reporting_set (example_env\<lparr>git_log_branch := \<lambda>rb. [], git_log_all := []\<rparr>) = []
   \<and> main (example_env\<lparr>git_log_branch := \<lambda>rb. [], git_log_all := []\<rparr>)
       = Some \<lparr>exit_code = 0, calls_made = [], delivered = []\<rparr>"
proof -
  let ?e = "example_env\<lparr>git_log_branch := \<lambda>rb. [], git_log_all := []\<rparr>"
  have r: "remoteBranches ?e = [js ''origin/a'', js ''origin/b'']"
    by (simp add: example_env_def remoteBranches_def js_eval)
  have b: "branch_list ?e rb = []" for rb
    by (simp add: branch_list_def js_eval)
  from b have "\<forall>rb \<in> set (remoteBranches ?e). branch_list ?e rb = []" by simp
  with C9_empty_window_ends_silently[of ?e] r b show ?thesis by simp
qed

end
